theory Spec2Isabelle
  imports Complex_Main "HOL-Library.Log_Nat"
begin

section \<open>PixelConvert: the conversion routes of server.js\<close>

text \<open>
  The server stores uploaded images in a directory of temporary files and answers five
  conversion routes. The model passes the temp file store explicitly as a \<open>world\<close>:
  every route takes the request and the world and returns the response it sends together
  with the world it leaves behind.

  The libraries the routes call (sharp, PDFKit, JSZip, docx, nanoid) are not part of the
  repository. What they compute is taken as a parameter, the record \<open>libs\<close>; what they
  do with their arguments (an archive keyed by entry name, a document that is a list of
  pages) is written out where a route depends on it.
\<close>

subsection \<open>The temp file store\<close>

type_synonym bytes = "nat list"
type_synonym fpath = string

text \<open>
  \<open>disk\<close> holds the regular files of the store. \<open>undeletable\<close> is the set of paths on
  which \<open>fs.unlinkSync\<close> throws (a permission or a busy file). \<open>nanoid_calls\<close> counts
  the identifiers drawn so far.
\<close>

record world =
  disk :: "fpath \<rightharpoonup> bytes"
  undeletable :: "fpath set"
  nanoid_calls :: nat

datatype js_error =
    ENOENT fpath
  | EPERM fpath
  | SharpError fpath
  | PdfKitError fpath

definition existsSync :: "world \<Rightarrow> fpath \<Rightarrow> bool" where
  "existsSync w p = (disk w p \<noteq> None)"

definition readFileSync :: "world \<Rightarrow> fpath \<Rightarrow> js_error + bytes" where
  "readFileSync w p = (case disk w p of None \<Rightarrow> Inl (ENOENT p) | Some b \<Rightarrow> Inr b)"

definition unlinkSync :: "world \<Rightarrow> fpath \<Rightarrow> js_error + world" where
  "unlinkSync w p =
     (if disk w p = None then Inl (ENOENT p)
      else if p \<in> undeletable w then Inl (EPERM p)
      else Inr (w\<lparr>disk := (disk w)(p := None)\<rparr>))"

text \<open>
  \<^verbatim>\<open>
  const cleanupFiles = (filePaths) => {
    filePaths.forEach(filePath => {
      if (fs.existsSync(filePath)) {
        fs.unlinkSync(filePath);
      }
    });
  };
  \<close>
  There is no handler inside the loop: an error thrown by \<open>unlinkSync\<close> leaves
  \<open>forEach\<close>. The result is the error thrown, if any, and the world at that moment.
\<close>

fun cleanupFiles :: "fpath list \<Rightarrow> world \<Rightarrow> js_error option \<times> world" where
  "cleanupFiles [] w = (None, w)"
| "cleanupFiles (p # ps) w =
     (if existsSync w p then
        (case unlinkSync w p of
           Inl e \<Rightarrow> (Some e, w)
         | Inr w' \<Rightarrow> cleanupFiles ps w')
      else cleanupFiles ps w)"

text \<open>The tracked paths before the first one whose deletion throws, and that one.\<close>

definition blocks :: "world \<Rightarrow> fpath \<Rightarrow> bool" where
  "blocks w p = (existsSync w p \<and> p \<in> undeletable w)"

definition remove_all :: "fpath list \<Rightarrow> world \<Rightarrow> world" where
  "remove_all ps w = w\<lparr>disk := (\<lambda>p. if p \<in> set ps then None else disk w p)\<rparr>"

subsection \<open>JavaScript numbers\<close>

text \<open>
  A JavaScript number is an IEEE-754 binary64 value. Every finite one is a rational
  number, and the result of an arithmetic operation is the exact result rounded to the
  nearest value with a significand of 53 bits, ties to the even significand.
  \<open>to_double\<close> is that rounding: for \<open>x\<close> with \<open>2 powi e \<le> \<bar>x\<bar> < 2 powi (e + 1)\<close>
  the representable values around \<open>x\<close> are the multiples of \<open>2 powi (e - 52)\<close>.
  The exponent is not bounded here: there is no overflow to \<open>Infinity\<close> and no
  subnormal range. Page sizes in points and pixel dimensions are far from both.
\<close>

type_synonym number = rat

definition round_even :: "rat \<Rightarrow> int" where
  "round_even q =
     (let f = \<lfloor>q\<rfloor>; r = q - of_int f
      in if r < 1 / 2 then f else if 1 / 2 < r then f + 1 else if even f then f else f + 1)"

text \<open>The \<open>e\<close> with \<open>2 powi e \<le> x < 2 powi (e + 1)\<close>, for a positive \<open>x\<close>.\<close>

definition exponent :: "rat \<Rightarrow> int" where
  "exponent x =
     (let e0 = bitlen (fst (quotient_of x)) - bitlen (snd (quotient_of x))
      in if 2 powi e0 \<le> x then e0 else e0 - 1)"

definition to_double :: "rat \<Rightarrow> number" where
  "to_double x =
     (if x = 0 then 0
      else let ulp = 2 powi (exponent \<bar>x\<bar> - 52)
           in sgn x * of_int (round_even (\<bar>x\<bar> / ulp)) * ulp)"

text \<open>The operators \<open>/\<close>, \<open>*\<close> and \<open>-\<close> on numbers.\<close>

definition fdiv :: "number \<Rightarrow> number \<Rightarrow> number" where
  "fdiv x y = to_double (x / y)"

definition fmul :: "number \<Rightarrow> number \<Rightarrow> number" where
  "fmul x y = to_double (x * y)"

definition fsub :: "number \<Rightarrow> number \<Rightarrow> number" where
  "fsub x y = to_double (x - y)"

subsection \<open>Requests, responses and the libraries\<close>

text \<open>
  A file object as multer builds it; the routes read \<open>originalname\<close> and \<open>path\<close>.
  \<open>req.files\<close> is undefined (\<open>None\<close>) when the request carried no multipart body;
  \<open>params_format\<close> is \<open>req.params.format\<close>, read by the image route only.
\<close>

record upload =
  originalname :: string
  path :: fpath

record request =
  files :: "upload list option"
  params_format :: string

text \<open>
  What the libraries compute from the bytes of a file. \<open>None\<close> stands for a thrown error.
  \<^item> \<open>metadata\<close>: the pixel width and height \<open>sharp(path).metadata()\<close> reports;
  \<^item> \<open>pdf_accepts\<close>: whether \<open>doc.image\<close> of PDFKit embeds the file;
  \<^item> \<open>toFormat\<close>: the file re-encoded by \<open>sharp(path).toFormat(format)\<close>;
  \<^item> \<open>decode_frames\<close>: the frames sharp decodes from a source (one for a still image);
  \<^item> \<open>nanoid\<close>: the n-th identifier drawn;
  \<^item> \<open>page_width\<close>, \<open>page_height\<close>: \<open>doc.page.width\<close> and \<open>doc.page.height\<close> of a
    page made by \<open>doc.addPage()\<close>.
\<close>

record libs =
  metadata :: "bytes \<Rightarrow> (nat \<times> nat) option"
  pdf_accepts :: "bytes \<Rightarrow> bool"
  toFormat :: "string \<Rightarrow> bytes \<Rightarrow> bytes option"
  decode_frames :: "bytes \<Rightarrow> bytes list option"
  nanoid :: "nat \<Rightarrow> string"
  page_width :: number
  page_height :: number

definition nanoid_call :: "libs \<Rightarrow> world \<Rightarrow> string \<times> world" where
  "nanoid_call L w = (nanoid L (nanoid_calls w), w\<lparr>nanoid_calls := Suc (nanoid_calls w)\<rparr>)"

text \<open>The image PDFKit draws on a page: \<open>doc.image(src, x, y, {width, height})\<close>.\<close>

record placement =
  img_src :: fpath
  img_x :: number
  img_y :: number
  img_width :: number
  img_height :: number

text \<open>A page holds the image drawn on it, if one was drawn.\<close>

type_synonym page = "placement option"

record image_run =
  run_data :: bytes
  run_width :: nat
  run_height :: nat

datatype docx_paragraph = Paragraph "image_run list"

record gif =
  gif_frames :: "bytes list"
  gif_delay :: nat
  gif_loop :: nat

type_synonym archive = "(string \<times> bytes) list"

datatype body =
    ZipBuffer archive
  | PdfStream "page list"
  | DocxBuffer "docx_paragraph list"
  | GifBuffer gif
  | FileStream fpath bytes

text \<open>
  \<open>Json n msg\<close> is \<open>res.status(n).json({ error: msg })\<close> with a literal message;
  \<open>JsonCaught e\<close> is \<open>res.status(500).json({ error: error.message })\<close> for a caught error;
  \<open>Sent t d b\<close> is a response with status 200, Content-Type \<open>t\<close>, Content-Disposition
  \<open>d\<close> and body \<open>b\<close>.
\<close>

datatype response =
    Json nat string
  | JsonCaught js_error
  | Sent string string body

definition attachment :: "string \<Rightarrow> string" where
  "attachment name = ''attachment; filename='' @ [CHR 0x22] @ name @ [CHR 0x22]"

definition no_files :: "request \<Rightarrow> bool" where
  "no_files req = (case files req of None \<Rightarrow> True | Some fs \<Rightarrow> length fs = 0)"

definition the_files :: "request \<Rightarrow> upload list" where
  "the_files req = (case files req of None \<Rightarrow> [] | Some fs \<Rightarrow> fs)"

subsection \<open>POST /convert/zip\<close>

text \<open>
  JSZip keeps the entries of an archive in an object keyed by entry name:
  \<open>zip.file(name, data)\<close> assigns \<open>files[name]\<close>, so a second entry under a name
  replaces the first, at the first one's position. Entry names here are plain file names
  (multer strips directories from \<open>originalname\<close>), so no folder entry is made.
\<close>

fun zip_file :: "string \<Rightarrow> bytes \<Rightarrow> archive \<Rightarrow> archive" where
  "zip_file name fileData [] = [(name, fileData)]"
| "zip_file name fileData ((n, d) # z) =
     (if n = name then (name, fileData) # z else (n, d) # zip_file name fileData z)"

text \<open>
  \<^verbatim>\<open>
  req.files.forEach(file => {
    const fileData = fs.readFileSync(file.path);
    zip.file(file.originalname, fileData);
    filePaths.push(file.path);
  });
  \<close>
\<close>

fun zip_loop :: "world \<Rightarrow> upload list \<Rightarrow> archive \<times> fpath list \<Rightarrow> js_error + archive \<times> fpath list" where
  "zip_loop w [] acc = Inr acc"
| "zip_loop w (file # rest) (z, filePaths) =
     (case readFileSync w (path file) of
        Inl e \<Rightarrow> Inl e
      | Inr fileData \<Rightarrow>
          zip_loop w rest (zip_file (originalname file) fileData z, filePaths @ [path file]))"

text \<open>
  The response is sent before \<open>cleanupFiles\<close> runs, so an error thrown by the cleanup
  does not change it. The handler of the route's \<open>try\<close> answers and does nothing else.
\<close>

definition convert_zip :: "libs \<Rightarrow> request \<Rightarrow> world \<Rightarrow> response \<times> world" where
  "convert_zip L req w =
     (if no_files req then (Json 400 ''No files uploaded'', w)
      else case zip_loop w (the_files req) ([], []) of
          Inl e \<Rightarrow> (JsonCaught e, w)
        | Inr (z, filePaths) \<Rightarrow>
            (let (ident, w1) = nanoid_call L w;
                 zipFilename = ''converted-photos-'' @ ident @ ''.zip''
             in (Sent ''application/zip'' (attachment zipFilename) (ZipBuffer z),
                 snd (cleanupFiles filePaths w1))))"

subsection \<open>POST /convert/pdf\<close>

text \<open>
  The body of the per-file \<open>try\<close>, after \<open>doc.addPage()\<close>:
  \<^verbatim>\<open>
  const imageInfo = await sharp(file.path).metadata();
  const pageWidth = doc.page.width;
  const pageHeight = doc.page.height;
  const scaleX = pageWidth / imageInfo.width;
  const scaleY = pageHeight / imageInfo.height;
  const scale = Math.min(scaleX, scaleY) * 0.8;
  const scaledWidth = imageInfo.width * scale;
  const scaledHeight = imageInfo.height * scale;
  const x = (pageWidth - scaledWidth) / 2;
  const y = (pageHeight - scaledHeight) / 2;
  doc.image(file.path, x, y, { width: scaledWidth, height: scaledHeight });
  \<close>
  \<open>sharp\<close> throws on a missing or undecodable file, \<open>doc.image\<close> on a file PDFKit
  cannot embed. Each operator rounds its result; \<open>0.8\<close> is the number nearest to
  \<open>4 / 5\<close>, and the width and height of the image are whole numbers. A decoded image
  has a positive width and height; a division by zero, which is \<open>Infinity\<close> in
  JavaScript and 0 here, does not occur for it, and the statements about the layout
  assume positive dimensions.
\<close>

definition sharp_metadata :: "libs \<Rightarrow> world \<Rightarrow> fpath \<Rightarrow> js_error + nat \<times> nat" where
  "sharp_metadata L w p =
     (case disk w p of
        None \<Rightarrow> Inl (SharpError p)
      | Some b \<Rightarrow> (case metadata L b of None \<Rightarrow> Inl (SharpError p) | Some wh \<Rightarrow> Inr wh))"

definition layout :: "number \<Rightarrow> number \<Rightarrow> nat \<times> nat \<Rightarrow> fpath \<Rightarrow> placement" where
  "layout pageWidth pageHeight imageInfo src =
     (let width = of_nat (fst imageInfo);
          height = of_nat (snd imageInfo);
          scaleX = fdiv pageWidth width;
          scaleY = fdiv pageHeight height;
          scale = fmul (min scaleX scaleY) (to_double (4 / 5));
          scaledWidth = fmul width scale;
          scaledHeight = fmul height scale;
          x = fdiv (fsub pageWidth scaledWidth) 2;
          y = fdiv (fsub pageHeight scaledHeight) 2
      in \<lparr>img_src = src, img_x = x, img_y = y,
          img_width = scaledWidth, img_height = scaledHeight\<rparr>)"

text \<open>The pages of a response that is a PDF.\<close>

fun pdf_pages :: "response \<Rightarrow> page list" where
  "pdf_pages (Sent t d (PdfStream pages)) = pages"
| "pdf_pages r = []"

definition doc_image :: "libs \<Rightarrow> world \<Rightarrow> placement \<Rightarrow> js_error + placement" where
  "doc_image L w pl =
     (case disk w (img_src pl) of
        None \<Rightarrow> Inl (ENOENT (img_src pl))
      | Some b \<Rightarrow> if pdf_accepts L b then Inr pl else Inl (PdfKitError (img_src pl)))"

definition pdf_try :: "libs \<Rightarrow> world \<Rightarrow> upload \<Rightarrow> js_error + placement" where
  "pdf_try L w file =
     (case sharp_metadata L w (path file) of
        Inl e \<Rightarrow> Inl e
      | Inr imageInfo \<Rightarrow>
          doc_image L w (layout (page_width L) (page_height L) imageInfo (path file)))"

text \<open>
  One turn of the loop: \<open>doc.addPage()\<close> is the first statement of the \<open>try\<close>, so the
  page exists before the file is decoded; the handler of the \<open>try\<close> only logs, and
  \<open>filePaths.push(file.path)\<close> follows it.
\<close>

definition pdf_step :: "libs \<Rightarrow> world \<Rightarrow> upload \<Rightarrow> page list \<times> fpath list \<Rightarrow> page list \<times> fpath list" where
  "pdf_step L w file acc =
     (let pages = fst acc @ [None];
          pages' = (case pdf_try L w file of
                      Inl imageError \<Rightarrow> pages
                    | Inr pl \<Rightarrow> butlast pages @ [Some pl])
      in (pages', snd acc @ [path file]))"

fun pdf_loop :: "libs \<Rightarrow> world \<Rightarrow> upload list \<Rightarrow> page list \<times> fpath list \<Rightarrow> page list \<times> fpath list" where
  "pdf_loop L w [] acc = acc"
| "pdf_loop L w (file # rest) acc = pdf_loop L w rest (pdf_step L w file acc)"

text \<open>
  The document is piped to the response; \<open>cleanupFiles\<close> runs from the response's
  \<open>finish\<close> event.
\<close>

definition convert_pdf :: "libs \<Rightarrow> request \<Rightarrow> world \<Rightarrow> response \<times> world" where
  "convert_pdf L req w =
     (if no_files req then (Json 400 ''No files uploaded'', w)
      else
        (let (ident, w1) = nanoid_call L w;
             (pages, filePaths) = pdf_loop L w1 (the_files req) ([], [])
         in (Sent ''application/pdf'' (attachment (''converted-photos-'' @ ident @ ''.pdf''))
               (PdfStream pages),
             snd (cleanupFiles filePaths w1))))"

subsection \<open>POST /convert/word\<close>

text \<open>
  \<^verbatim>\<open>
  for (const file of req.files) {
    try {
      const imageBuffer = fs.readFileSync(file.path);
      paragraphs.push(new Paragraph({ children: [ new ImageRun({ data: imageBuffer,
          transformation: { width: 400, height: 300 } }) ] }));
    } catch (imageError) {
      console.error(`Error processing image:`, imageError);
    }
    filePaths.push(file.path);
  }
  \<close>
\<close>

definition word_step :: "world \<Rightarrow> upload \<Rightarrow> docx_paragraph list \<times> fpath list \<Rightarrow> docx_paragraph list \<times> fpath list" where
  "word_step w file acc =
     (let paragraphs = (case readFileSync w (path file) of
                          Inl imageError \<Rightarrow> fst acc
                        | Inr imageBuffer \<Rightarrow>
                            fst acc @ [Paragraph [\<lparr>run_data = imageBuffer,
                                                   run_width = 400, run_height = 300\<rparr>]])
      in (paragraphs, snd acc @ [path file]))"

fun word_loop :: "world \<Rightarrow> upload list \<Rightarrow> docx_paragraph list \<times> fpath list \<Rightarrow> docx_paragraph list \<times> fpath list" where
  "word_loop w [] acc = acc"
| "word_loop w (file # rest) acc = word_loop w rest (word_step w file acc)"

text \<open>
  \<open>Packer.toBuffer\<close> serialises the document it is given, whatever the number of
  paragraphs; the body of the response is kept as that document.
\<close>

definition convert_word :: "libs \<Rightarrow> request \<Rightarrow> world \<Rightarrow> response \<times> world" where
  "convert_word L req w =
     (if no_files req then (Json 400 ''No files uploaded'', w)
      else
        (let (paragraphs, filePaths) = word_loop w (the_files req) ([], []);
             (ident, w1) = nanoid_call L w
         in (Sent ''application/vnd.openxmlformats-officedocument.wordprocessingml.document''
               (attachment (''converted-photos-'' @ ident @ ''.docx''))
               (DocxBuffer paragraphs),
             snd (cleanupFiles filePaths w1))))"

subsection \<open>POST /convert/gif\<close>

text \<open>
  \<open>sharp(input, { animated }).gif({ delay: 500, loop: 0 }).toBuffer()\<close>: sharp reads
  one input; without \<open>animated\<close> it reads the first frame of it only.
\<close>

definition sharp_gif :: "libs \<Rightarrow> world \<Rightarrow> fpath \<Rightarrow> bool \<Rightarrow> js_error + gif" where
  "sharp_gif L w p animated =
     (case disk w p of
        None \<Rightarrow> Inl (SharpError p)
      | Some b \<Rightarrow>
          (case decode_frames L b of
             None \<Rightarrow> Inl (SharpError p)
           | Some frames \<Rightarrow>
               Inr \<lparr>gif_frames = (if animated then frames else take 1 frames),
                    gif_delay = 500, gif_loop = 0\<rparr>))"

text \<open>
  \<^verbatim>\<open>
  const filePaths = req.files.map(file => file.path);
  const gifFilename = `converted-photos-${nanoid()}.gif`;
  let gifBuffer;
  if (req.files.length === 1) {
    gifBuffer = await sharp(filePaths[0]).gif({ delay: 500, loop: 0 }).toBuffer();
  } else {
    // For multiple images, create animated GIF
    gifBuffer = await sharp(filePaths[0], { animated: true })
      .gif({ delay: 500, loop: 0 }).toBuffer();
  }
  \<close>
\<close>

definition convert_gif :: "libs \<Rightarrow> request \<Rightarrow> world \<Rightarrow> response \<times> world" where
  "convert_gif L req w =
     (if no_files req then (Json 400 ''No files uploaded'', w)
      else
        (let filePaths = map path (the_files req);
             (ident, w1) = nanoid_call L w;
             gifFilename = ''converted-photos-'' @ ident @ ''.gif''
         in case sharp_gif L w1 (hd filePaths) (length (the_files req) \<noteq> 1) of
              Inl e \<Rightarrow> (JsonCaught e, w1)
            | Inr gifBuffer \<Rightarrow>
                (Sent ''image/gif'' (attachment gifFilename) (GifBuffer gifBuffer),
                 snd (cleanupFiles filePaths w1))))"

subsection \<open>POST /convert/image/:format\<close>

text \<open>
  \<open>toLowerCase\<close> on the letters A to Z. No other character lower-cases to a letter of
  an allowed format name, so membership in \<open>allowedFormats\<close> is decided as in the source.
\<close>

definition lower_char :: "char \<Rightarrow> char" where
  "lower_char c =
     (let n = (of_char c :: nat) in if 65 \<le> n \<and> n \<le> 90 then char_of (n + 32) else c)"

definition toLowerCase :: "string \<Rightarrow> string" where
  "toLowerCase s = map lower_char s"

definition allowedFormats :: "string list" where
  "allowedFormats = [''jpeg'', ''png'', ''webp'', ''gif'', ''bmp'', ''tiff'']"

text \<open>
  \<open>path.parse(p).name\<close>: the last component of the path without its extension. The
  extension starts at the last dot of the component, unless that dot is its first
  character or the component is \<open>..\<close>.
\<close>

definition basename :: "string \<Rightarrow> string" where
  "basename p = rev (takeWhile (\<lambda>c. c \<noteq> CHR ''/'') (dropWhile (\<lambda>c. c = CHR ''/'') (rev p)))"

definition parse_name :: "string \<Rightarrow> string" where
  "parse_name p =
     (let base = basename p;
          stem = rev (tl (dropWhile (\<lambda>c. c \<noteq> CHR ''.'') (rev base)))
      in if CHR ''.'' \<notin> set base \<or> stem = [] \<or> base = ''..'' then base else stem)"

definition uploadsDir :: fpath where
  "uploadsDir = ''/app/uploads''"

definition path_join :: "fpath \<Rightarrow> string \<Rightarrow> fpath" where
  "path_join dir name = dir @ ''/'' @ name"

record converted =
  originalName :: string
  convertedName :: string
  outPath :: fpath

text \<open>\<open>await sharp(file.path).toFormat(format).toFile(outputPath)\<close>\<close>

definition sharp_toFile :: "libs \<Rightarrow> world \<Rightarrow> fpath \<Rightarrow> string \<Rightarrow> fpath \<Rightarrow> js_error + world" where
  "sharp_toFile L w src format outputPath =
     (case disk w src of
        None \<Rightarrow> Inl (SharpError src)
      | Some b \<Rightarrow>
          (case toFormat L format b of
             None \<Rightarrow> Inl (SharpError src)
           | Some out \<Rightarrow> Inr (w\<lparr>disk := (disk w)(outputPath \<mapsto> out)\<rparr>)))"

text \<open>
  \<^verbatim>\<open>
  try {
    const outputFilename = `${path.parse(file.originalname).name}.${format}`;
    const outputPath = path.join(uploadsDir, `${nanoid()}-${outputFilename}`);
    await sharp(file.path).toFormat(format).toFile(outputPath);
    convertedFiles.push({ originalName: file.originalname,
      convertedName: outputFilename, path: outputPath });
  } catch (conversionError) {
    console.error(`Error converting ${file.originalname}:`, conversionError);
  }
  \<close>
\<close>

definition image_step :: "libs \<Rightarrow> string \<Rightarrow> upload \<Rightarrow> converted list \<times> world \<Rightarrow> converted list \<times> world" where
  "image_step L format file acc =
     (let outputFilename = parse_name (originalname file) @ ''.'' @ format;
          (ident, w1) = nanoid_call L (snd acc);
          outputPath = path_join uploadsDir (ident @ ''-'' @ outputFilename)
      in case sharp_toFile L w1 (path file) format outputPath of
           Inl conversionError \<Rightarrow> (fst acc, w1)
         | Inr w2 \<Rightarrow>
             (fst acc @ [\<lparr>originalName = originalname file,
                          convertedName = outputFilename, outPath = outputPath\<rparr>], w2))"

fun image_loop :: "libs \<Rightarrow> string \<Rightarrow> upload list \<Rightarrow> converted list \<times> world \<Rightarrow> converted list \<times> world" where
  "image_loop L format [] acc = acc"
| "image_loop L format (file # rest) acc = image_loop L format rest (image_step L format file acc)"

text \<open>
  \<^verbatim>\<open>
  convertedFiles.forEach(file => {
    const fileData = fs.readFileSync(file.path);
    zip.file(file.convertedName, fileData);
  });
  \<close>
\<close>

fun zip_converted :: "world \<Rightarrow> converted list \<Rightarrow> archive \<Rightarrow> js_error + archive" where
  "zip_converted w [] z = Inr z"
| "zip_converted w (file # rest) z =
     (case readFileSync w (outPath file) of
        Inl e \<Rightarrow> Inl e
      | Inr fileData \<Rightarrow> zip_converted w rest (zip_file (convertedName file) fileData z))"

text \<open>
  \<open>res.sendFile(p)\<close> does not read the file when it is called. Express opens it from a
  callback, and a callback runs only after the synchronous code that follows the call in
  the handler; so the file is read from the world that code leaves behind. When the file
  is missing then, the error reaches the error-handling middleware of server.js, which
  answers \<open>res.status(500).json({ error: error.message })\<close>.
\<close>

definition sendFile :: "world \<Rightarrow> string \<Rightarrow> string \<Rightarrow> fpath \<Rightarrow> response" where
  "sendFile w contentType disposition p =
     (case disk w p of
        None \<Rightarrow> JsonCaught (ENOENT p)
      | Some b \<Rightarrow> Sent contentType disposition (FileStream p b))"

text \<open>
  The format is checked first, then the files. With one converted file the route calls
  \<open>res.sendFile\<close> and then \<open>cleanupFiles\<close>; an error thrown by that cleanup is caught
  by the route's \<open>try\<close> before anything was written, and answered. With more than one,
  the archive is sent as a buffer before the cleanup.
\<close>

definition convert_image :: "libs \<Rightarrow> request \<Rightarrow> world \<Rightarrow> response \<times> world" where
  "convert_image L req w =
     (let format = params_format req in
      if toLowerCase format \<notin> set allowedFormats then (Json 400 ''Unsupported format'', w)
      else if no_files req then (Json 400 ''No files uploaded'', w)
      else
        (let filePaths = map path (the_files req);
             (convertedFiles, w1) = image_loop L format (the_files req) ([], w)
         in if length convertedFiles = 0
            then (Json 500 ''No files were successfully converted'', w1)
            else if length convertedFiles = 1
            then
              (let file = hd convertedFiles in
               case cleanupFiles (filePaths @ [outPath file]) w1 of
                 (Some e, w2) \<Rightarrow> (JsonCaught e, w2)
               | (None, w2) \<Rightarrow>
                   (sendFile w2 (''image/'' @ format) (attachment (convertedName file))
                      (outPath file), w2))
            else
              (case zip_converted w1 convertedFiles [] of
                 Inl e \<Rightarrow> (JsonCaught e, w1)
               | Inr z \<Rightarrow>
                   (let (ident, w2) = nanoid_call L w1;
                        zipFilename = ''converted-images-'' @ format @ ''-'' @ ident @ ''.zip'';
                        allPaths = filePaths @ map outPath convertedFiles
                    in (Sent ''application/zip'' (attachment zipFilename) (ZipBuffer z),
                        snd (cleanupFiles allPaths w2))))))"

subsection \<open>A concrete setting\<close>

text \<open>
  Libraries for the evaluations below: a file decodes when its first two bytes, read as
  width and height, are positive; it has one frame; re-encoding keeps the bytes; pages
  are 612 by 792 points, the default of PDFKit.
\<close>

definition demo_metadata :: "bytes \<Rightarrow> (nat \<times> nat) option" where
  "demo_metadata b =
     (case b of
        iw # ih # rest \<Rightarrow> if 0 < iw \<and> 0 < ih then Some (iw, ih) else None
      | _ \<Rightarrow> None)"

definition demo_libs :: libs where
  "demo_libs =
     \<lparr>metadata = demo_metadata,
      pdf_accepts = (\<lambda>b. True),
      toFormat = (\<lambda>format b. if demo_metadata b = None then None else Some b),
      decode_frames = (\<lambda>b. if demo_metadata b = None then None else Some [b]),
      nanoid = (\<lambda>n. replicate (Suc n) CHR ''x''),
      page_width = 612,
      page_height = 792\<rparr>"

definition demo_world :: "(fpath \<times> bytes) list \<Rightarrow> world" where
  "demo_world stored = \<lparr>disk = map_of stored, undeletable = {}, nanoid_calls = 0\<rparr>"

text \<open>
  Three uploads: \<open>photo_a\<close> is 2 by 4 pixels, \<open>photo_b\<close> does not decode, \<open>photo_c\<close>
  is 4 by 2 pixels. \<open>photo_a'\<close> is another upload that was named \<open>a.jpg\<close>;
  \<open>photo_d\<close> is 1 by 33 pixels.
\<close>

definition photo_a :: upload where
  "photo_a = \<lparr>originalname = ''a.jpg'', path = ''/app/uploads/1-a.jpg''\<rparr>"

definition photo_b :: upload where
  "photo_b = \<lparr>originalname = ''b.jpg'', path = ''/app/uploads/2-b.jpg''\<rparr>"

definition photo_c :: upload where
  "photo_c = \<lparr>originalname = ''c.jpg'', path = ''/app/uploads/3-c.jpg''\<rparr>"

definition photo_a' :: upload where
  "photo_a' = \<lparr>originalname = ''a.jpg'', path = ''/app/uploads/4-a.jpg''\<rparr>"

definition photo_d :: upload where
  "photo_d = \<lparr>originalname = ''d.jpg'', path = ''/app/uploads/5-d.jpg''\<rparr>"

definition stored :: world where
  "stored = demo_world
     [(''/app/uploads/1-a.jpg'', [2, 4, 9]),
      (''/app/uploads/2-b.jpg'', [0]),
      (''/app/uploads/3-c.jpg'', [4, 2, 7]),
      (''/app/uploads/4-a.jpg'', [3, 3, 5]),
      (''/app/uploads/5-d.jpg'', [1, 33, 6])]"

definition locked_world :: world where
  "locked_world =
     \<lparr>disk = map_of [(''/app/uploads/1-a.jpg'', [2, 4, 9]), (''/app/uploads/2-b.jpg'', [4, 2, 7])],
      undeletable = {''/app/uploads/1-a.jpg''},
      nanoid_calls = 0\<rparr>"

definition request_of :: "upload list \<Rightarrow> string \<Rightarrow> request" where
  "request_of fs format = \<lparr>files = Some fs, params_format = format\<rparr>"

text \<open>The page the PDF loop leaves for one file, read off \<open>pdf_step\<close>.\<close>

definition page_for :: "libs \<Rightarrow> world \<Rightarrow> upload \<Rightarrow> page" where
  "page_for L w file = (case pdf_try L w file of Inl e \<Rightarrow> None | Inr pl \<Rightarrow> Some pl)"

subsection \<open>Cleanup\<close>

lemma blocks_unlink [simp]: "blocks (w\<lparr>disk := (disk w)(q := None)\<rparr>) p = (p \<noteq> q \<and> blocks w p)"
  by (auto simp: blocks_def existsSync_def)

lemma remove_all_Nil [simp]: "remove_all [] w = w"
  by (simp add: remove_all_def)

lemma remove_all_Cons_absent:
  "disk w p = None \<Longrightarrow> remove_all (p # ps) w = remove_all ps w"
  by (auto simp: remove_all_def fun_eq_iff intro!: world.equality)

lemma remove_all_Cons_unlink:
  "remove_all ps (w\<lparr>disk := (disk w)(p := None)\<rparr>) = remove_all (p # ps) w"
  by (auto simp: remove_all_def fun_eq_iff intro!: world.equality)

lemma cleanupFiles_no_block:
  "\<forall>p \<in> set ps. \<not> blocks w p \<Longrightarrow> cleanupFiles ps w = (None, remove_all ps w)"
proof (induction ps arbitrary: w)
  case Nil
  then show ?case by simp
next
  case (Cons p ps)
  show ?case
  proof (cases "disk w p")
    case None
    with Cons show ?thesis
      by (simp add: existsSync_def remove_all_Cons_absent)
  next
    case (Some b)
    from Cons.prems have np: "p \<notin> undeletable w"
      using Some by (simp add: blocks_def existsSync_def)
    let ?w = "w\<lparr>disk := (disk w)(p := None)\<rparr>"
    from Cons.prems have "\<forall>q \<in> set ps. \<not> blocks ?w q" by simp
    then have "cleanupFiles ps ?w = (None, remove_all ps ?w)" by (rule Cons.IH)
    with Some np show ?thesis
      by (simp add: existsSync_def unlinkSync_def remove_all_Cons_unlink)
  qed
qed

lemma cleanupFiles_block:
  "\<forall>p \<in> set ps. \<not> blocks w p \<Longrightarrow> blocks w q \<Longrightarrow>
   cleanupFiles (ps @ q # rest) w = (Some (EPERM q), remove_all ps w)"
proof (induction ps arbitrary: w)
  case Nil
  then show ?case
    by (simp add: blocks_def existsSync_def unlinkSync_def)
next
  case (Cons p ps)
  from Cons.prems have pq: "p \<noteq> q" by auto
  show ?case
  proof (cases "disk w p")
    case None
    with Cons show ?thesis
      by (simp add: existsSync_def remove_all_Cons_absent)
  next
    case (Some b)
    from Cons.prems have np: "p \<notin> undeletable w"
      using Some by (simp add: blocks_def existsSync_def)
    let ?w = "w\<lparr>disk := (disk w)(p := None)\<rparr>"
    from Cons.prems have "\<forall>r \<in> set ps. \<not> blocks ?w r" by simp
    moreover from Cons.prems pq have "blocks ?w q" by simp
    ultimately have "cleanupFiles (ps @ q # rest) ?w = (Some (EPERM q), remove_all ps ?w)"
      by (rule Cons.IH)
    with Some np show ?thesis
      by (simp add: existsSync_def unlinkSync_def remove_all_Cons_unlink)
  qed
qed

lemma existsSync_remove_all: "existsSync (remove_all ps w) p = (p \<notin> set ps \<and> existsSync w p)"
  by (simp add: remove_all_def existsSync_def)

text \<open>
  Claim C8, as stated: a deletion that throws on one path does not prevent the deletion
  attempts on the remaining paths. It fails: with two stored files of which the first
  cannot be deleted, \<open>cleanupFiles\<close> ends with the error of the first and the second,
  which could be deleted, is still in the store.
\<close>

theorem cleanupFiles_best_effort_counterexample:
  "cleanupFiles [''/app/uploads/1-a.jpg'', ''/app/uploads/2-b.jpg''] locked_world
     = (Some (EPERM ''/app/uploads/1-a.jpg''), locked_world)
   \<and> ''/app/uploads/2-b.jpg'' \<notin> undeletable locked_world
   \<and> existsSync locked_world ''/app/uploads/2-b.jpg''"
  by (simp add: locked_world_def existsSync_def unlinkSync_def)

text \<open>
  Claim C8, amended: \<open>cleanupFiles\<close> goes through the tracked paths in order and skips
  the ones that are not in the store. When no deletion throws, it ends without error and
  every tracked path is gone. The first deletion that throws ends it with that error: the
  paths before it are gone, the paths after it were not attempted.
\<close>

theorem cleanupFiles_until_first_throw:
  "(\<forall>p \<in> set ps. \<not> blocks w p) \<longrightarrow>
     cleanupFiles ps w = (None, remove_all ps w) \<and>
     (\<forall>p. existsSync (remove_all ps w) p = (p \<notin> set ps \<and> existsSync w p)) \<and>
     (blocks w q \<longrightarrow> cleanupFiles (ps @ q # rest) w = (Some (EPERM q), remove_all ps w))"
  using cleanupFiles_no_block [of ps w] cleanupFiles_block [of ps w q rest]
  by (simp add: existsSync_remove_all)

theorem cleanupFiles_until_first_throw_witness:
  "cleanupFiles [''/app/uploads/2-b.jpg'', ''/nowhere''] locked_world
     = (None, remove_all [''/app/uploads/2-b.jpg'', ''/nowhere''] locked_world)
   \<and> \<not> existsSync (remove_all [''/app/uploads/2-b.jpg'', ''/nowhere''] locked_world)
         ''/app/uploads/2-b.jpg''
   \<and> cleanupFiles ([''/app/uploads/2-b.jpg'', ''/nowhere''] @ ''/app/uploads/1-a.jpg''
         # [''/app/uploads/2-b.jpg'']) locked_world
     = (Some (EPERM ''/app/uploads/1-a.jpg''),
        remove_all [''/app/uploads/2-b.jpg'', ''/nowhere''] locked_world)"
  using cleanupFiles_until_first_throw
    [of "[''/app/uploads/2-b.jpg'', ''/nowhere'']" locked_world "''/app/uploads/1-a.jpg''"
        "[''/app/uploads/2-b.jpg'']"]
  by (simp add: blocks_def existsSync_def locked_world_def)

subsection \<open>The order of the checks of the image route\<close>

text \<open>
  Claim C9: in the image route the format is validated before the file list is looked
  at. A request with no files (\<open>req.files\<close> undefined or empty) and a format outside the
  allowed ones is answered 400 "Unsupported format", and the store is left as it was.
\<close>

theorem unsupported_format_checked_first:
  "toLowerCase (params_format req) \<notin> set allowedFormats \<Longrightarrow> no_files req \<Longrightarrow>
   convert_image L req w = (Json 400 ''Unsupported format'', w)"
  by (simp add: convert_image_def)

theorem unsupported_format_checked_first_witness:
  "convert_image demo_libs \<lparr>files = Some [], params_format = ''SVG''\<rparr> stored
     = (Json 400 ''Unsupported format'', stored)"
proof -
  have h: "toLowerCase (params_format \<lparr>files = Some [], params_format = ''SVG''\<rparr>)
             \<notin> set allowedFormats"
    by code_simp
  have n: "no_files \<lparr>files = Some [], params_format = ''SVG''\<rparr>"
    by (simp add: no_files_def)
  show ?thesis
    using unsupported_format_checked_first [OF h n] .
qed

subsection \<open>The cleanup list of the PDF and Word routes\<close>

lemma pdf_loop_paths: "snd (pdf_loop L w fs acc) = snd acc @ map path fs"
  by (induction fs arbitrary: acc) (simp_all add: pdf_step_def Let_def)

lemma word_loop_paths: "snd (word_loop w fs acc) = snd acc @ map path fs"
  by (induction fs arbitrary: acc) (simp_all add: word_step_def Let_def)

text \<open>
  Claim C10: in the PDF and Word routes the loop appends the path of every input file to
  the cleanup list, whether the file was processed or skipped; a request with files is
  answered on the success path, and the cleanup runs over the paths of all input files, in
  order.
\<close>

theorem cleanup_list_is_every_input:
  "snd (pdf_loop L w fs ([], [])) = map path fs \<and>
   snd (word_loop w fs ([], [])) = map path fs \<and>
   (\<not> no_files req \<longrightarrow>
      snd (convert_pdf L req w)
        = snd (cleanupFiles (map path (the_files req)) (snd (nanoid_call L w))) \<and>
      snd (convert_word L req w)
        = snd (cleanupFiles (map path (the_files req)) (snd (nanoid_call L w))))"
  by (simp add: pdf_loop_paths word_loop_paths convert_pdf_def convert_word_def
      split_beta Let_def)

theorem cleanup_list_is_every_input_witness:
  "snd (convert_pdf demo_libs (request_of [photo_a, photo_b] []) stored)
     = snd (cleanupFiles [path photo_a, path photo_b] (snd (nanoid_call demo_libs stored))) \<and>
   snd (convert_word demo_libs (request_of [photo_a, photo_b] []) stored)
     = snd (cleanupFiles [path photo_a, path photo_b] (snd (nanoid_call demo_libs stored)))"
  using cleanup_list_is_every_input
    [of demo_libs stored "[photo_a, photo_b]" "request_of [photo_a, photo_b] []"]
  by (simp add: no_files_def the_files_def request_of_def)

subsection \<open>Rounding\<close>

lemma round_even_error: "\<bar>of_int (round_even q) - q\<bar> \<le> 1 / 2"
proof -
  define r where "r = q - of_int \<lfloor>q\<rfloor>"
  have r: "0 \<le> r" "r < 1"
    unfolding r_def by linarith+
  have q: "q = of_int \<lfloor>q\<rfloor> + r"
    by (simp add: r_def)
  have "\<bar>of_int (round_even q) - (of_int \<lfloor>q\<rfloor> + r)\<bar> \<le> 1 / 2"
    unfolding round_even_def Let_def r_def [symmetric] using r by auto
  with q show ?thesis by simp
qed

lemma quotient_bitlen:
  assumes "0 < x" and "quotient_of x = (a, b)"
  shows "2 powi (bitlen a - bitlen b - 1) \<le> x" and "x < 2 powi (bitlen a - bitlen b + 1)"
proof -
  from assms(2) have b: "0 < b" and x: "x = of_int a / of_int b"
    using quotient_of_denom_pos quotient_of_div by auto
  with assms(1) have a: "0 < a"
    by (simp add: zero_less_divide_iff)
  let ?la = "nat (bitlen a - 1)" and ?lb = "nat (bitlen b - 1)"
  have la1: "1 \<le> bitlen a" and lb1: "1 \<le> bitlen b"
    using a b bitlen_eq_zero_iff [of a] bitlen_eq_zero_iff [of b]
      bitlen_nonneg [of a] bitlen_nonneg [of b] by linarith+
  have Sa: "Suc ?la = nat (bitlen a)" and Sb: "Suc ?lb = nat (bitlen b)"
    using la1 lb1 by simp_all
  have la: "2 ^ ?la \<le> a" "a < 2 ^ Suc ?la" and lb: "2 ^ ?lb \<le> b" "b < 2 ^ Suc ?lb"
    unfolding Sa Sb using bitlen_bounds [of a] bitlen_bounds [of b] a b
    by simp_all
  have A: "(2::rat) ^ ?la \<le> of_int a" "of_int a < (2::rat) ^ Suc ?la"
    using la by (metis of_int_le_iff of_int_numeral of_int_power,
        metis of_int_less_iff of_int_numeral of_int_power)
  have B: "(2::rat) ^ ?lb \<le> of_int b" "of_int b < (2::rat) ^ Suc ?lb"
    using lb by (metis of_int_le_iff of_int_numeral of_int_power,
        metis of_int_less_iff of_int_numeral of_int_power)
  have pa: "0 < (of_int a :: rat)" and pb: "0 < (of_int b :: rat)"
    using a b by simp_all
  have "(2::rat) ^ ?la / 2 ^ Suc ?lb \<le> x"
    unfolding x using A(1) B(2) pa pb
    by (intro frac_le) (auto simp: less_imp_le)
  moreover have "(2::rat) powi (bitlen a - bitlen b - 1) = 2 ^ ?la / 2 ^ Suc ?lb"
  proof -
    have "bitlen a - bitlen b - 1 = int ?la - int (Suc ?lb)"
      using la1 lb1 by simp
    then have "(2::rat) powi (bitlen a - bitlen b - 1) = 2 powi (int ?la - int (Suc ?lb))"
      by (simp only:)
    also have "\<dots> = 2 ^ ?la / 2 ^ Suc ?lb"
      by (subst power_int_diff) (simp_all only: power_int_of_nat, simp)
    finally show ?thesis .
  qed
  ultimately show "2 powi (bitlen a - bitlen b - 1) \<le> x"
    by simp
  have "x < (2::rat) ^ Suc ?la / 2 ^ ?lb"
    unfolding x using A(2) B(1) pa pb
    by (intro frac_less) (auto simp: less_imp_le)
  moreover have "(2::rat) powi (bitlen a - bitlen b + 1) = 2 ^ Suc ?la / 2 ^ ?lb"
  proof -
    have "bitlen a - bitlen b + 1 = int (Suc ?la) - int ?lb"
      using la1 lb1 by simp
    then have "(2::rat) powi (bitlen a - bitlen b + 1) = 2 powi (int (Suc ?la) - int ?lb)"
      by (simp only:)
    also have "\<dots> = 2 ^ Suc ?la / 2 ^ ?lb"
      by (subst power_int_diff) (simp_all only: power_int_of_nat, simp)
    finally show ?thesis .
  qed
  ultimately show "x < 2 powi (bitlen a - bitlen b + 1)"
    by simp
qed

lemma exponent_bounds:
  assumes "0 < x"
  shows "2 powi (exponent x) \<le> x" and "x < 2 powi (exponent x + 1)"
proof -
  obtain a b where q: "quotient_of x = (a, b)"
    by (cases "quotient_of x")
  note qb = quotient_bitlen [OF assms q]
  show "2 powi (exponent x) \<le> x"
    using qb(1) by (simp add: exponent_def Let_def q)
  show "x < 2 powi (exponent x + 1)"
    using qb(2) by (simp add: exponent_def Let_def q not_le)
qed

lemma to_double_error:
  assumes "0 < x"
  shows "\<bar>to_double x - x\<bar> \<le> x / 2 ^ 53"
proof -
  define e where "e = exponent x"
  define ulp :: rat where "ulp = 2 powi (e - 52)"
  define n where "n = round_even (x / ulp)"
  have ulp: "0 < ulp"
    by (simp add: ulp_def)
  have td: "to_double x = of_int n * ulp"
    using assms by (simp add: to_double_def Let_def n_def ulp_def e_def)
  have "of_int n * ulp - x = (of_int n - x / ulp) * ulp"
    using ulp by (simp add: left_diff_distrib)
  then have "\<bar>of_int n * ulp - x\<bar> = \<bar>of_int n - x / ulp\<bar> * \<bar>ulp\<bar>"
    by (simp only: abs_mult)
  also have "\<dots> = \<bar>of_int n - x / ulp\<bar> * ulp"
    using ulp by simp
  also have "\<dots> \<le> 1 / 2 * ulp"
    using round_even_error [of "x / ulp"] ulp unfolding n_def
    by (intro mult_right_mono) simp_all
  also have "1 / 2 * ulp = 2 powi e / 2 ^ 53"
  proof -
    have "(2::rat) powi (e - 52) = 2 powi e / 2 powi 52"
      by (rule power_int_diff) simp
    then show ?thesis
      by (simp add: ulp_def)
  qed
  also have "\<dots> \<le> x / 2 ^ 53"
    using exponent_bounds(1) [OF assms] by (simp add: e_def divide_right_mono)
  finally show ?thesis
    by (simp add: td)
qed

lemma to_double_upper: "0 < x \<Longrightarrow> to_double x \<le> x * (1 + 1 / 2 ^ 53)"
proof -
  assume "0 < x"
  then have "\<bar>to_double x - x\<bar> \<le> x / 2 ^ 53"
    by (rule to_double_error)
  then have "to_double x \<le> x + x / 2 ^ 53"
    by linarith
  also have "x + x / 2 ^ 53 = x * (1 + 1 / 2 ^ 53)"
    by (simp add: distrib_left)
  finally show ?thesis .
qed

lemma to_double_lower: "0 < x \<Longrightarrow> x * (1 - 1 / 2 ^ 53) \<le> to_double x"
proof -
  assume "0 < x"
  then have "\<bar>to_double x - x\<bar> \<le> x / 2 ^ 53"
    by (rule to_double_error)
  then have "x - x / 2 ^ 53 \<le> to_double x"
    by linarith
  moreover have "x - x / 2 ^ 53 = x * (1 - 1 / 2 ^ 53)"
    by (simp add: right_diff_distrib)
  ultimately show ?thesis by simp
qed

lemma to_double_pos: "0 < x \<Longrightarrow> 0 < to_double x"
proof -
  assume x: "0 < x"
  then have "0 < x * (1 - 1 / 2 ^ 53)"
    by (simp add: zero_less_mult_iff)
  with to_double_lower [OF x] show ?thesis
    by linarith
qed

lemma four_roundings: "(1 + 1 / 2 ^ 53 :: rat) ^ 4 \<le> 1 + 1 / 2 ^ 50"
  by code_simp

lemma eight_tenths: "to_double (4 / 5) = 3602879701896397 / 4503599627370496"
  by code_simp

text \<open>
  The scaled size of one dimension: \<open>a\<close> is the pixel size, \<open>p\<close> the page size, \<open>m\<close> the
  smaller of the two quotients. Four roundings lie between \<open>4 / 5 * p\<close> and the result.
\<close>

lemma rounded_scale_bound:
  assumes a: "0 < a" and p: "0 < p" and m: "0 < m" "m \<le> fdiv p a"
  shows "fmul a (fmul m (to_double (4 / 5))) \<le> 4 / 5 * p * (1 + 1 / 2 ^ 50)"
proof -
  define K :: rat where "K = 1 + 1 / 2 ^ 53"
  define c :: rat where "c = to_double (4 / 5)"
  have K: "1 \<le> K" "0 < K"
    by (simp_all add: K_def)
  have c: "0 < c" "c \<le> 4 / 5 * K"
    by (simp_all add: c_def K_def eight_tenths)
  have "fdiv p a \<le> p / a * K"
    unfolding fdiv_def K_def using a p by (intro to_double_upper) simp
  with m(2) have m': "m \<le> p / a * K"
    by simp
  have mc: "0 < m * c"
    using m(1) c(1) by simp
  have "m * c \<le> (p / a * K) * (4 / 5 * K)"
    using m' c m(1) by (intro mult_mono) (simp_all add: less_imp_le)
  moreover have "fmul m c \<le> m * c * K"
    unfolding fmul_def K_def using mc by (rule to_double_upper)
  ultimately have s: "fmul m c \<le> (p / a * K) * (4 / 5 * K) * K"
    using K by (meson mult_right_mono less_imp_le order_trans)
  have sp: "0 < fmul m c"
    unfolding fmul_def using mc by (rule to_double_pos)
  then have asp: "0 < a * fmul m c"
    using a by simp
  have "fmul a (fmul m c) \<le> a * fmul m c * K"
    unfolding fmul_def [of a] K_def using asp by (rule to_double_upper)
  also have "\<dots> \<le> a * ((p / a * K) * (4 / 5 * K) * K) * K"
    using s a K by (intro mult_right_mono mult_left_mono) (simp_all add: less_imp_le)
  also have "\<dots> = 4 / 5 * p * K ^ 4"
    using a by (simp add: power4_eq_xxxx)
  also have "\<dots> \<le> 4 / 5 * p * (1 + 1 / 2 ^ 50)"
  proof -
    have "K ^ 4 \<le> 1 + 1 / 2 ^ 50"
      unfolding K_def by (rule four_roundings)
    then show ?thesis
      using p by (intro mult_left_mono) simp_all
  qed
  finally show ?thesis
    by (simp add: c_def)
qed

subsection \<open>The pages of the PDF\<close>

lemmas demo_defs = demo_libs_def demo_metadata_def demo_world_def stored_def
  photo_a_def photo_b_def photo_c_def photo_a'_def photo_d_def request_of_def no_files_def the_files_def
  nanoid_call_def attachment_def

lemma pdf_step_pages: "fst (pdf_step L w file acc) = fst acc @ [page_for L w file]"
  by (simp add: pdf_step_def page_for_def Let_def split: sum.split)

lemma pdf_loop_pages: "fst (pdf_loop L w fs acc) = fst acc @ map (page_for L w) fs"
  by (induction fs arbitrary: acc) (simp_all add: pdf_step_pages)

lemma layout_fields:
  "img_src (layout pw ph (iw, ih) src) = src"
  "img_width (layout pw ph (iw, ih) src)
     = fmul (of_nat iw) (fmul (min (fdiv pw (of_nat iw)) (fdiv ph (of_nat ih))) (to_double (4 / 5)))"
  "img_height (layout pw ph (iw, ih) src)
     = fmul (of_nat ih) (fmul (min (fdiv pw (of_nat iw)) (fdiv ph (of_nat ih))) (to_double (4 / 5)))"
  "img_x (layout pw ph (iw, ih) src) = fdiv (fsub pw (img_width (layout pw ph (iw, ih) src))) 2"
  "img_y (layout pw ph (iw, ih) src) = fdiv (fsub ph (img_height (layout pw ph (iw, ih) src))) 2"
  by (simp_all add: layout_def Let_def)

lemma layout_src [simp]: "img_src (layout pw ph wh src) = src"
  by (simp add: layout_def Let_def)

lemma page_for_eq:
  "page_for L w file =
     (case disk w (path file) of
        None \<Rightarrow> None
      | Some b \<Rightarrow>
          (case metadata L b of
             None \<Rightarrow> None
           | Some wh \<Rightarrow>
               if pdf_accepts L b
               then Some (layout (page_width L) (page_height L) wh (path file))
               else None))"
  by (simp add: page_for_def pdf_try_def sharp_metadata_def doc_image_def
      split: option.splits)

lemma scale_pos:
  assumes "0 < iw" "0 < ih" "0 < pw" "0 < ph"
  shows "0 < fmul (min (fdiv pw (of_nat iw)) (fdiv ph (of_nat ih))) (to_double (4 / 5))"
proof -
  have "0 < fdiv pw (of_nat iw)" "0 < fdiv ph (of_nat ih)"
    unfolding fdiv_def using assms by (simp_all add: to_double_pos)
  then have "0 < min (fdiv pw (of_nat iw)) (fdiv ph (of_nat ih)) * to_double (4 / 5)"
    by (simp add: eight_tenths)
  then show ?thesis
    unfolding fmul_def by (rule to_double_pos)
qed

lemma layout_props:
  fixes iw ih :: nat and pw ph :: rat and src :: fpath
  defines "scale \<equiv> fmul (min (fdiv pw (of_nat iw)) (fdiv ph (of_nat ih))) (to_double (4 / 5))"
  defines "pl \<equiv> layout pw ph (iw, ih) src"
  assumes "0 < iw" "0 < ih" "0 < pw" "0 < ph"
  shows "0 < scale"
    and "\<bar>img_width pl - of_nat iw * scale\<bar> \<le> of_nat iw * scale / 2 ^ 53"
    and "\<bar>img_height pl - of_nat ih * scale\<bar> \<le> of_nat ih * scale / 2 ^ 53"
    and "img_width pl \<le> 4 / 5 * pw * (1 + 1 / 2 ^ 50)"
    and "img_height pl \<le> 4 / 5 * ph * (1 + 1 / 2 ^ 50)"
proof -
  let ?m = "min (fdiv pw (of_nat iw)) (fdiv ph (of_nat ih))"
  show s: "0 < scale"
    unfolding scale_def using assms(3-6) by (rule scale_pos)
  have w: "img_width pl = fmul (of_nat iw) scale" and h: "img_height pl = fmul (of_nat ih) scale"
    by (simp_all add: pl_def scale_def layout_fields)
  have pw: "0 < of_nat iw * scale" and ph: "0 < of_nat ih * scale"
    using s assms(3,4) by simp_all
  show "\<bar>img_width pl - of_nat iw * scale\<bar> \<le> of_nat iw * scale / 2 ^ 53"
    unfolding w fmul_def using pw by (rule to_double_error)
  show "\<bar>img_height pl - of_nat ih * scale\<bar> \<le> of_nat ih * scale / 2 ^ 53"
    unfolding h fmul_def using ph by (rule to_double_error)
  have m: "0 < ?m"
    unfolding fdiv_def using assms(3-6) by (simp add: to_double_pos)
  show "img_width pl \<le> 4 / 5 * pw * (1 + 1 / 2 ^ 50)"
    unfolding w scale_def using assms(3,5) m
    by (intro rounded_scale_bound) simp_all
  show "img_height pl \<le> 4 / 5 * ph * (1 + 1 / 2 ^ 50)"
    unfolding h scale_def using assms(4,6) m
    by (intro rounded_scale_bound) simp_all
qed

text \<open>
  Claim C7, as stated: the drawn size is within 80% of the page. It fails by the rounding
  of the arithmetic: for an image of 1 by 33 pixels on the page of 612 by 792 points the
  scale is the number next above 19.2 and the drawn height the number next above 633.6,
  which is more than 80% of 792, whether that product is taken exactly or as a number.
\<close>

theorem pdf_image_layout_counterexample:
  "pdf_pages (fst (convert_pdf demo_libs (request_of [photo_d] []) stored))
     = [Some (layout 612 792 (1, 33) ''/app/uploads/5-d.jpg'')]
   \<and> img_height (layout 612 792 (1, 33) ''/app/uploads/5-d.jpg'')
       = 2786602269435495 / 4398046511104
   \<and> 4 / 5 * 792 < img_height (layout 612 792 (1, 33) ''/app/uploads/5-d.jpg'')
   \<and> fmul (to_double (4 / 5)) 792 < img_height (layout 612 792 (1, 33) ''/app/uploads/5-d.jpg'')"
proof -
  have "pdf_pages (fst (convert_pdf demo_libs (request_of [photo_d] []) stored))
     = [Some (layout 612 792 (1, 33) ''/app/uploads/5-d.jpg'')]"
    by (simp add: convert_pdf_def pdf_step_def pdf_try_def sharp_metadata_def doc_image_def
        demo_defs Let_def)
  moreover have h: "img_height (layout 612 792 (1, 33) ''/app/uploads/5-d.jpg'')
       = 2786602269435495 / 4398046511104"
    unfolding layout_fields by code_simp
  moreover have "fmul (to_double (4 / 5)) 792 < (2786602269435495 / 4398046511104 :: rat)"
    by code_simp
  ultimately show ?thesis
    by simp
qed

text \<open>
  Claim C7, amended: the page at the position of an input file holds an image exactly when
  the file is in the store, decodes and is embedded by PDFKit. For positive pixel and
  page dimensions the image is drawn as the route computes it in JavaScript numbers: the
  scale is \<open>Math.min(pageWidth / width, pageHeight / height) * 0.8\<close>, the drawn width and
  height are the pixel width and height times that one scale, so each is that product up
  to one rounding (a relative \<open>1 / 2 ^ 53\<close>), \<open>x\<close> and \<open>y\<close> are
  \<open>(pageWidth - scaledWidth) / 2\<close> and \<open>(pageHeight - scaledHeight) / 2\<close>, and the drawn
  size is within 80% of the page in both dimensions up to rounding (a relative
  \<open>1 / 2 ^ 50\<close>).
\<close>

theorem pdf_image_layout:
  assumes "\<not> no_files req" and "i < length (the_files req)"
  shows "length (pdf_pages (fst (convert_pdf L req w))) = length (the_files req) \<and>
    (case pdf_pages (fst (convert_pdf L req w)) ! i of
       None \<Rightarrow>
         \<not> (\<exists>b iw ih. disk w (path (the_files req ! i)) = Some b \<and>
              metadata L b = Some (iw, ih) \<and> pdf_accepts L b)
     | Some pl \<Rightarrow>
         \<exists>b iw ih. disk w (path (the_files req ! i)) = Some b \<and>
           metadata L b = Some (iw, ih) \<and> pdf_accepts L b \<and>
           img_src pl = path (the_files req ! i) \<and>
           (0 < iw \<and> 0 < ih \<and> 0 < page_width L \<and> 0 < page_height L \<longrightarrow>
              (let scale = fmul (min (fdiv (page_width L) (of_nat iw))
                                     (fdiv (page_height L) (of_nat ih)))
                                (to_double (4 / 5))
               in 0 < scale \<and>
                  img_width pl = fmul (of_nat iw) scale \<and>
                  img_height pl = fmul (of_nat ih) scale \<and>
                  img_x pl = fdiv (fsub (page_width L) (img_width pl)) 2 \<and>
                  img_y pl = fdiv (fsub (page_height L) (img_height pl)) 2 \<and>
                  \<bar>img_width pl - of_nat iw * scale\<bar> \<le> of_nat iw * scale / 2 ^ 53 \<and>
                  \<bar>img_height pl - of_nat ih * scale\<bar> \<le> of_nat ih * scale / 2 ^ 53 \<and>
                  img_width pl \<le> 4 / 5 * page_width L * (1 + 1 / 2 ^ 50) \<and>
                  img_height pl \<le> 4 / 5 * page_height L * (1 + 1 / 2 ^ 50))))"
proof -
  let ?w1 = "snd (nanoid_call L w)"
  let ?fs = "the_files req"
  let ?f = "?fs ! i"
  have pages: "pdf_pages (fst (convert_pdf L req w)) = map (page_for L ?w1) ?fs"
    using assms(1) by (simp add: convert_pdf_def split_beta Let_def pdf_loop_pages)
  have d: "disk ?w1 = disk w"
    by (simp add: nanoid_call_def)
  have page: "pdf_pages (fst (convert_pdf L req w)) ! i = page_for L ?w1 ?f"
    using pages assms(2) by simp
  show ?thesis
  proof (cases "page_for L ?w1 ?f")
    case None
    then have "\<not> (\<exists>b iw ih. disk w (path ?f) = Some b \<and>
              metadata L b = Some (iw, ih) \<and> pdf_accepts L b)"
      by (auto simp: page_for_eq d split: option.splits if_splits)
    with None page pages show ?thesis
      by simp
  next
    case (Some pl)
    then obtain b iw ih where b: "disk w (path ?f) = Some b"
      and m: "metadata L b = Some (iw, ih)" and acc: "pdf_accepts L b"
      and pl: "pl = layout (page_width L) (page_height L) (iw, ih) (path ?f)"
      by (auto simp: page_for_eq d split: option.splits if_splits)
    have "0 < iw \<and> 0 < ih \<and> 0 < page_width L \<and> 0 < page_height L \<longrightarrow>
              (let scale = fmul (min (fdiv (page_width L) (of_nat iw))
                                     (fdiv (page_height L) (of_nat ih)))
                                (to_double (4 / 5))
               in 0 < scale \<and>
                  img_width pl = fmul (of_nat iw) scale \<and>
                  img_height pl = fmul (of_nat ih) scale \<and>
                  img_x pl = fdiv (fsub (page_width L) (img_width pl)) 2 \<and>
                  img_y pl = fdiv (fsub (page_height L) (img_height pl)) 2 \<and>
                  \<bar>img_width pl - of_nat iw * scale\<bar> \<le> of_nat iw * scale / 2 ^ 53 \<and>
                  \<bar>img_height pl - of_nat ih * scale\<bar> \<le> of_nat ih * scale / 2 ^ 53 \<and>
                  img_width pl \<le> 4 / 5 * page_width L * (1 + 1 / 2 ^ 50) \<and>
                  img_height pl \<le> 4 / 5 * page_height L * (1 + 1 / 2 ^ 50))"
      unfolding Let_def pl
      using layout_props [where iw = iw and ih = ih and pw = "page_width L"
          and ph = "page_height L"]
      by (simp add: layout_fields)
    moreover have "img_src pl = path ?f"
      by (simp add: pl)
    ultimately have "\<exists>b iw ih. disk w (path ?f) = Some b \<and>
           metadata L b = Some (iw, ih) \<and> pdf_accepts L b \<and>
           img_src pl = path ?f \<and>
           (0 < iw \<and> 0 < ih \<and> 0 < page_width L \<and> 0 < page_height L \<longrightarrow>
              (let scale = fmul (min (fdiv (page_width L) (of_nat iw))
                                     (fdiv (page_height L) (of_nat ih)))
                                (to_double (4 / 5))
               in 0 < scale \<and>
                  img_width pl = fmul (of_nat iw) scale \<and>
                  img_height pl = fmul (of_nat ih) scale \<and>
                  img_x pl = fdiv (fsub (page_width L) (img_width pl)) 2 \<and>
                  img_y pl = fdiv (fsub (page_height L) (img_height pl)) 2 \<and>
                  \<bar>img_width pl - of_nat iw * scale\<bar> \<le> of_nat iw * scale / 2 ^ 53 \<and>
                  \<bar>img_height pl - of_nat ih * scale\<bar> \<le> of_nat ih * scale / 2 ^ 53 \<and>
                  img_width pl \<le> 4 / 5 * page_width L * (1 + 1 / 2 ^ 50) \<and>
                  img_height pl \<le> 4 / 5 * page_height L * (1 + 1 / 2 ^ 50)))"
      using b m acc by blast
    with Some page pages show ?thesis
      by simp
  qed
qed

lemma pdf_one_page_per_file:
  "\<not> no_files req \<Longrightarrow>
   \<exists>t d. fst (convert_pdf L req w) = Sent t d (PdfStream (map (page_for L (snd (nanoid_call L w))) (the_files req)))"
  by (simp add: convert_pdf_def split_beta Let_def pdf_loop_pages)

text \<open>
  Claim C1 says that the PDF has as many pages as files that decoded, two for three
  files of which one does not decode. The route adds the page before it decodes the
  file: for \<open>photo_a\<close>, \<open>photo_b\<close> (which does not decode) and \<open>photo_c\<close> the document has
  three pages, the second one blank.
\<close>

theorem pdf_blank_page:
  "fst (convert_pdf demo_libs (request_of [photo_a, photo_b, photo_c] []) stored)
     = Sent ''application/pdf'' (attachment ''converted-photos-x.pdf'')
         (PdfStream [Some (layout 612 792 (2, 4) ''/app/uploads/1-a.jpg''),
                     None,
                     Some (layout 612 792 (4, 2) ''/app/uploads/3-c.jpg'')])"
  by (simp add: convert_pdf_def pdf_step_def pdf_try_def sharp_metadata_def doc_image_def
      layout_fields demo_defs Let_def)


theorem pdf_image_layout_witness:
  "pdf_pages (fst (convert_pdf demo_libs (request_of [photo_a, photo_b, photo_c] []) stored)) ! 0
     = Some (layout 612 792 (2, 4) ''/app/uploads/1-a.jpg'')
   \<and> img_width (layout 612 792 (2, 4) ''/app/uploads/1-a.jpg'')
       = fmul 2 (fmul (min (fdiv 612 2) (fdiv 792 4)) (to_double (4 / 5)))
   \<and> img_width (layout 612 792 (2, 4) ''/app/uploads/1-a.jpg'') \<le> 4 / 5 * 612 * (1 + 1 / 2 ^ 50)
   \<and> img_height (layout 612 792 (2, 4) ''/app/uploads/1-a.jpg'') \<le> 4 / 5 * 792 * (1 + 1 / 2 ^ 50)"
proof -
  let ?req = "request_of [photo_a, photo_b, photo_c] []"
  let ?pl = "layout 612 792 (2, 4) ''/app/uploads/1-a.jpg''"
  have n: "\<not> no_files ?req" and i: "0 < length (the_files ?req)"
    by (simp_all add: no_files_def the_files_def request_of_def)
  have p: "pdf_pages (fst (convert_pdf demo_libs ?req stored)) ! 0 = Some ?pl"
    by (simp add: convert_pdf_def pdf_step_def pdf_try_def sharp_metadata_def doc_image_def
        demo_defs Let_def)
  have f: "path (the_files ?req ! 0) = ''/app/uploads/1-a.jpg''"
    by (simp add: the_files_def request_of_def photo_a_def)
  from pdf_image_layout [OF n i, of demo_libs stored, THEN conjunct2]
  obtain b iw ih where
    b: "disk stored ''/app/uploads/1-a.jpg'' = Some b"
    and m: "metadata demo_libs b = Some (iw, ih)"
    and k: "0 < iw \<and> 0 < ih \<and> 0 < page_width demo_libs \<and> 0 < page_height demo_libs \<longrightarrow>
              (let scale = fmul (min (fdiv (page_width demo_libs) (of_nat iw))
                                     (fdiv (page_height demo_libs) (of_nat ih)))
                                (to_double (4 / 5))
               in 0 < scale \<and>
                  img_width ?pl = fmul (of_nat iw) scale \<and>
                  img_height ?pl = fmul (of_nat ih) scale \<and>
                  img_x ?pl = fdiv (fsub (page_width demo_libs) (img_width ?pl)) 2 \<and>
                  img_y ?pl = fdiv (fsub (page_height demo_libs) (img_height ?pl)) 2 \<and>
                  \<bar>img_width ?pl - of_nat iw * scale\<bar> \<le> of_nat iw * scale / 2 ^ 53 \<and>
                  \<bar>img_height ?pl - of_nat ih * scale\<bar> \<le> of_nat ih * scale / 2 ^ 53 \<and>
                  img_width ?pl \<le> 4 / 5 * page_width demo_libs * (1 + 1 / 2 ^ 50) \<and>
                  img_height ?pl \<le> 4 / 5 * page_height demo_libs * (1 + 1 / 2 ^ 50))"
    unfolding p option.case f by blast
  from b have "b = [2, 4, 9]"
    by (simp add: demo_defs)
  with m have "iw = 2 \<and> ih = 4"
    by (simp add: demo_libs_def demo_metadata_def)
  with k have "img_width ?pl = fmul 2 (fmul (min (fdiv 612 2) (fdiv 792 4)) (to_double (4 / 5)))"
    and "img_width ?pl \<le> 4 / 5 * 612 * (1 + 1 / 2 ^ 50)"
    and "img_height ?pl \<le> 4 / 5 * 792 * (1 + 1 / 2 ^ 50)"
    by (simp_all add: demo_libs_def Let_def)
  with p show ?thesis
    by simp
qed

subsection \<open>The archive of the ZIP route\<close>

lemma zip_file_fresh: "name \<notin> fst ` set z \<Longrightarrow> zip_file name d z = z @ [(name, d)]"
  by (induction z) auto

lemma zip_loop_distinct:
  assumes "\<forall>f \<in> set fs. disk w (path f) \<noteq> None"
    and "distinct (map originalname fs)"
    and "fst ` set z \<inter> originalname ` set fs = {}"
  shows "\<exists>z'. zip_loop w fs (z, ps) = Inr (z @ z', ps @ map path fs) \<and>
           map fst z' = map originalname fs \<and>
           map (Some \<circ> snd) z' = map (disk w \<circ> path) fs"
  using assms
proof (induction fs arbitrary: z ps)
  case Nil
  then show ?case by simp
next
  case (Cons f fs)
  from Cons.prems(1) obtain b where b: "disk w (path f) = Some b"
    by auto
  from Cons.prems(3) have fresh: "originalname f \<notin> fst ` set z"
    by auto
  let ?z = "z @ [(originalname f, b)]"
  have "\<forall>g \<in> set fs. disk w (path g) \<noteq> None"
    using Cons.prems(1) by simp
  moreover have "distinct (map originalname fs)"
    using Cons.prems(2) by simp
  moreover have "fst ` set ?z \<inter> originalname ` set fs = {}"
    using Cons.prems(2,3) by auto
  ultimately obtain z' where
    z': "zip_loop w fs (?z, ps @ [path f]) = Inr (?z @ z', (ps @ [path f]) @ map path fs)"
    and n: "map fst z' = map originalname fs"
    and c: "map (Some \<circ> snd) z' = map (disk w \<circ> path) fs"
    using Cons.IH [of ?z "ps @ [path f]"] by blast
  have "zip_loop w (f # fs) (z, ps) = Inr (z @ (originalname f, b) # z', ps @ map path (f # fs))"
    using z' b fresh by (simp add: readFileSync_def zip_file_fresh)
  then show ?case
    using n c b by (intro exI [of _ "(originalname f, b) # z'"]) (simp add: comp_def)
qed

lemma zip_file_map_fst:
  "map fst (zip_file name d z)
     = (if name \<in> set (map fst z) then map fst z else map fst z @ [name])"
  by (induction z) force+

lemma zip_file_names: "fst ` set (zip_file name d z) = insert name (fst ` set z)"
proof -
  have "set (map fst (zip_file name d z)) = insert name (set (map fst z))"
    unfolding zip_file_map_fst by auto
  then show ?thesis by simp
qed

text \<open>
  Claim C3 says that the archive has one entry per input file, each under its original
  name, and that repeated original names are kept. The route stores every upload under a
  name of its own on disk, but keys the archive by the original name alone: \<open>photo_a\<close>
  and \<open>photo_a'\<close> were both uploaded as \<open>a.jpg\<close>, and the archive holds one entry, with
  the bytes of the second; the bytes of the first are lost.
\<close>

theorem zip_duplicate_names:
  "fst (convert_zip demo_libs (request_of [photo_a, photo_a'] []) stored)
     = Sent ''application/zip'' (attachment ''converted-photos-x.zip'')
         (ZipBuffer [(''a.jpg'', [3, 3, 5])])"
  by (simp add: convert_zip_def readFileSync_def demo_defs Let_def)

text \<open>
  When the original names are pairwise distinct and every file is readable, the archive
  is as the claim says: one entry per input file, in input order, each under the original
  name of its file and holding the bytes of that file.
\<close>

theorem zip_keeps_every_file:
  assumes "files req = Some fs" and "fs \<noteq> []"
    and "\<forall>f \<in> set fs. disk w (path f) \<noteq> None"
    and "distinct (map originalname fs)"
  shows "\<exists>z. fst (convert_zip L req w)
             = Sent ''application/zip''
                 (attachment (''converted-photos-'' @ nanoid L (nanoid_calls w) @ ''.zip''))
                 (ZipBuffer z) \<and>
           length z = length fs \<and>
           map fst z = map originalname fs \<and>
           map (Some \<circ> snd) z = map (disk w \<circ> path) fs"
proof -
  from zip_loop_distinct [OF assms(3,4), of "[]" "[]"]
  obtain z where z: "zip_loop w fs ([], []) = Inr (z, map path fs)"
    and n: "map fst z = map originalname fs"
    and c: "map (Some \<circ> snd) z = map (disk w \<circ> path) fs"
    by auto
  from n have "length z = length fs"
    by (metis length_map)
  moreover have "fst (convert_zip L req w)
             = Sent ''application/zip''
                 (attachment (''converted-photos-'' @ nanoid L (nanoid_calls w) @ ''.zip''))
                 (ZipBuffer z)"
    using assms(1,2) z
    by (simp add: convert_zip_def no_files_def the_files_def nanoid_call_def)
  ultimately show ?thesis
    using n c by blast
qed

theorem zip_keeps_every_file_witness:
  "\<exists>z. fst (convert_zip demo_libs (request_of [photo_a, photo_b, photo_c] []) stored)
             = Sent ''application/zip''
                 (attachment (''converted-photos-'' @ nanoid demo_libs (nanoid_calls stored) @ ''.zip''))
                 (ZipBuffer z) \<and>
        length z = length [photo_a, photo_b, photo_c] \<and>
        map fst z = map originalname [photo_a, photo_b, photo_c] \<and>
        map (Some \<circ> snd) z = map (disk stored \<circ> path) [photo_a, photo_b, photo_c]"
proof -
  have f: "files (request_of [photo_a, photo_b, photo_c] []) = Some [photo_a, photo_b, photo_c]"
    by (simp add: request_of_def)
  have n: "[photo_a, photo_b, photo_c] \<noteq> []"
    by simp
  have r: "\<forall>f \<in> set [photo_a, photo_b, photo_c]. disk stored (path f) \<noteq> None"
    by (simp add: demo_defs)
  have d: "distinct (map originalname [photo_a, photo_b, photo_c])"
    by (simp add: demo_defs)
  show ?thesis
    using zip_keeps_every_file [OF f n r d] .
qed

subsection \<open>The frames of the GIF\<close>

text \<open>
  With two files or more, the answer is computed from the first file alone.
\<close>

lemma gif_ignores_rest:
  "convert_gif L (request_of (f # g # fs) fmt) w =
   (case sharp_gif L (snd (nanoid_call L w)) (path f) True of
      Inl e \<Rightarrow> (JsonCaught e, snd (nanoid_call L w))
    | Inr buf \<Rightarrow> (Sent ''image/gif'' (attachment (''converted-photos-'' @ fst (nanoid_call L w) @ ''.gif'')) (GifBuffer buf),
         snd (cleanupFiles (path f # path g # map path fs) (snd (nanoid_call L w)))))"
  by (simp add: convert_gif_def request_of_def no_files_def the_files_def split_beta Let_def split: sum.split)

text \<open>
  Claim C2 says that each of the N input images becomes one frame. For the two still
  images \<open>photo_a\<close> and \<open>photo_c\<close> the GIF has one frame, the one of \<open>photo_a\<close>; the
  delay is 500 and the loop count 0.
\<close>

theorem gif_uses_first_file_only:
  "fst (convert_gif demo_libs (request_of [photo_a, photo_c] []) stored)
     = Sent ''image/gif'' (attachment ''converted-photos-x.gif'')
         (GifBuffer \<lparr>gif_frames = [[2, 4, 9]], gif_delay = 500, gif_loop = 0\<rparr>)"
  by (simp add: convert_gif_def sharp_gif_def demo_defs Let_def)

subsection \<open>The exits without cleanup\<close>

text \<open>
  Claim C4 says that cleanup runs on every exit, the error exits included. The routes call
  \<open>cleanupFiles\<close> on their success path only. The image route answers 400 for an
  unsupported format and leaves the world as it was, with the uploaded \<open>photo_a\<close> in the
  store; it answers 500 when no file converts, and the GIF route answers 500 when sharp
  throws, both with the uploaded \<open>photo_b\<close> still in the store.
\<close>

theorem no_cleanup_on_error_exits:
  "convert_image demo_libs (request_of [photo_a] ''svg'') stored
     = (Json 400 ''Unsupported format'', stored)
   \<and> fst (convert_image demo_libs (request_of [photo_b] ''png'') stored)
     = Json 500 ''No files were successfully converted''
   \<and> existsSync (snd (convert_image demo_libs (request_of [photo_b] ''png'') stored)) (path photo_b)
   \<and> fst (convert_gif demo_libs (request_of [photo_b] []) stored)
     = JsonCaught (SharpError ''/app/uploads/2-b.jpg'')
   \<and> existsSync (snd (convert_gif demo_libs (request_of [photo_b] []) stored)) (path photo_b)
   \<and> existsSync stored (path photo_a)"
  by (simp add: convert_image_def convert_gif_def sharp_gif_def image_step_def sharp_toFile_def
      toLowerCase_def lower_char_def allowedFormats_def existsSync_def demo_defs Let_def)

subsection \<open>The document of the Word route\<close>

lemma word_always_document:
  "\<not> no_files req \<Longrightarrow>
   \<exists>d. fst (convert_word L req w)
     = Sent ''application/vnd.openxmlformats-officedocument.wordprocessingml.document'' d
         (DocxBuffer (fst (word_loop w (the_files req) ([], []))))"
  by (simp add: convert_word_def split_beta Let_def)

text \<open>
  Claim C5 says that the Word route fails when no paragraph was produced. The route has
  no such check: for a request whose only file cannot be read it answers with a document
  of zero paragraphs.
\<close>

theorem word_empty_document:
  "fst (convert_word demo_libs (request_of [\<lparr>originalname = ''gone.jpg'', path = ''/app/uploads/9-gone.jpg''\<rparr>] []) stored)
     = Sent ''application/vnd.openxmlformats-officedocument.wordprocessingml.document''
         (attachment ''converted-photos-x.docx'') (DocxBuffer [])"
  by (simp add: convert_word_def word_step_def readFileSync_def demo_defs Let_def)

subsection \<open>The three exits of the image route after conversion\<close>

lemma cleanupFiles_keeps_absent:
  "disk w p = None \<Longrightarrow> disk (snd (cleanupFiles ps w)) p = None"
  by (induction ps arbitrary: w) (auto simp: unlinkSync_def existsSync_def)

lemma cleanupFiles_done_gone:
  "cleanupFiles ps w = (None, w') \<Longrightarrow> p \<in> set ps \<Longrightarrow> disk w' p = None"
proof (induction ps arbitrary: w)
  case Nil
  then show ?case by simp
next
  case (Cons q ps)
  show ?case
  proof (cases "p \<in> set ps")
    case True
    with Cons show ?thesis
      by (auto simp: unlinkSync_def existsSync_def split: if_splits)
  next
    case False
    with Cons.prems have pq: "p = q" by simp
    show ?thesis
    proof (cases "disk w q")
      case None
      with Cons.prems(1) have "cleanupFiles ps w = (None, w')"
        by (simp add: existsSync_def)
      with cleanupFiles_keeps_absent [of w q ps] None pq show ?thesis
        by simp
    next
      case (Some b)
      with Cons.prems(1) have c: "cleanupFiles ps (w\<lparr>disk := (disk w)(q := None)\<rparr>) = (None, w')"
        by (auto simp: unlinkSync_def existsSync_def split: if_splits)
      from cleanupFiles_keeps_absent [of "w\<lparr>disk := (disk w)(q := None)\<rparr>" q ps] c pq
      show ?thesis by simp
    qed
  qed
qed

lemma image_none_converted:
  assumes "toLowerCase (params_format req) \<in> set allowedFormats" and "\<not> no_files req"
    and "fst (image_loop L (params_format req) (the_files req) ([], w)) = []"
  shows "convert_image L req w
     = (Json 500 ''No files were successfully converted'',
        snd (image_loop L (params_format req) (the_files req) ([], w)))"
  using assms by (simp add: convert_image_def split_beta Let_def)

lemma image_single_never_streams:
  assumes "toLowerCase (params_format req) \<in> set allowedFormats" and "\<not> no_files req"
    and "length (fst (image_loop L (params_format req) (the_files req) ([], w))) = 1"
  shows "\<exists>e. fst (convert_image L req w) = JsonCaught e"
proof -
  let ?r = "image_loop L (params_format req) (the_files req) ([], w)"
  let ?p = "outPath (hd (fst ?r))"
  let ?c = "cleanupFiles (map path (the_files req) @ [?p]) (snd ?r)"
  from assms(3) have ne: "fst ?r \<noteq> []"
    by auto
  show ?thesis
  proof (cases "fst ?c")
    case (Some e)
    with assms ne show ?thesis
      by (simp add: convert_image_def split_beta Let_def split: prod.split option.split)
  next
    case None
    then have "?c = (None, snd ?c)"
      by (simp add: prod_eq_iff)
    then have "disk (snd ?c) ?p = None"
      by (rule cleanupFiles_done_gone) simp
    with assms ne None show ?thesis
      by (simp add: convert_image_def sendFile_def split_beta Let_def split: prod.split option.split)
  qed
qed

lemma image_step_on_disk:
  assumes "\<forall>c \<in> set (fst acc). disk (snd acc) (outPath c) \<noteq> None"
  shows "\<forall>c \<in> set (fst (image_step L format file acc)).
           disk (snd (image_step L format file acc)) (outPath c) \<noteq> None"
  using assms
  by (auto simp: image_step_def sharp_toFile_def nanoid_call_def Let_def
      split: option.splits)

lemma image_loop_on_disk:
  "\<forall>c \<in> set (fst acc). disk (snd acc) (outPath c) \<noteq> None \<Longrightarrow>
   \<forall>c \<in> set (fst (image_loop L format fs acc)).
     disk (snd (image_loop L format fs acc)) (outPath c) \<noteq> None"
proof (induction fs arbitrary: acc)
  case Nil
  then show ?case by simp
next
  case (Cons f fs)
  from image_step_on_disk [OF Cons.prems]
  show ?case by (simp add: Cons.IH)
qed

lemma zip_converted_readable:
  "\<forall>c \<in> set cs. disk w (outPath c) \<noteq> None \<Longrightarrow>
   \<exists>z'. zip_converted w cs z = Inr z' \<and> fst ` set z' = fst ` set z \<union> convertedName ` set cs"
proof (induction cs arbitrary: z)
  case Nil
  then show ?case by simp
next
  case (Cons c cs)
  then obtain b where b: "disk w (outPath c) = Some b"
    by auto
  from Cons obtain z' where
    "zip_converted w cs (zip_file (convertedName c) b z) = Inr z'"
    "fst ` set z' = fst ` set (zip_file (convertedName c) b z) \<union> convertedName ` set cs"
    by (metis list.set_intros(2))
  with b show ?case
    by (simp add: readFileSync_def zip_file_names)
qed

lemma image_many_zipped:
  assumes "toLowerCase (params_format req) \<in> set allowedFormats" and "\<not> no_files req"
    and "1 < length (fst (image_loop L (params_format req) (the_files req) ([], w)))"
  shows "\<exists>d z. fst (convert_image L req w) = Sent ''application/zip'' d (ZipBuffer z) \<and>
           fst ` set z
             = convertedName ` set (fst (image_loop L (params_format req) (the_files req) ([], w)))"
proof -
  let ?r = "image_loop L (params_format req) (the_files req) ([], w)"
  have "\<forall>c \<in> set (fst ?r). disk (snd ?r) (outPath c) \<noteq> None"
    by (rule image_loop_on_disk) simp
  from zip_converted_readable [OF this, of "[]"]
  obtain z where "zip_converted (snd ?r) (fst ?r) [] = Inr z"
    and "fst ` set z = convertedName ` set (fst ?r)"
    by auto
  moreover from assms(3) have "fst ?r \<noteq> []" "length (fst ?r) \<noteq> Suc 0"
    by auto
  ultimately show ?thesis
    using assms(1,2) by (simp add: convert_image_def split_beta Let_def)
qed

text \<open>
  Claim C6 says that with exactly one converted file the response streams that file. The
  route calls \<open>res.sendFile\<close> on the converted file and then, in the same synchronous
  run, deletes it with the inputs: when Express comes to open the file it is gone, and the
  request is answered 500. For the single upload \<open>photo_a\<close> and the format \<open>png\<close>:
\<close>

theorem image_single_file_not_streamed:
  "fst (convert_image demo_libs (request_of [photo_a] ''png'') stored)
     = JsonCaught (ENOENT ''/app/uploads/x-a.png'')"
  by (simp add: convert_image_def image_step_def sharp_toFile_def sendFile_def
      toLowerCase_def lower_char_def allowedFormats_def existsSync_def unlinkSync_def
      parse_name_def basename_def path_join_def uploadsDir_def demo_defs Let_def)


end
